theory Spec2Isabelle
  imports Main
begin

section \<open>Python strings and the character classes of the \<open>re\<close> module\<close>

text \<open>
  A Python \<open>str\<close> is a sequence of code points. The input text is modelled as a
  \<open>string\<close>, one \<open>char\<close> per code point, which covers the code points below 256;
  \<open>length\<close> therefore counts what Python's \<open>len\<close> counts. On this range the classes
  \<open>\\d\<close>, \<open>\\s\<close> and \<open>\\w\<close> of a \<open>str\<close> pattern are the following.
\<close>

definition ord :: "char \<Rightarrow> nat" where
  "ord c = of_char c"

definition isdigit :: "char \<Rightarrow> bool" where
  "isdigit c = (48 \<le> ord c \<and> ord c \<le> 57)"

definition isspace :: "char \<Rightarrow> bool" where
  "isspace c = ((9 \<le> ord c \<and> ord c \<le> 13) \<or> (28 \<le> ord c \<and> ord c \<le> 32)
                \<or> ord c = 133 \<or> ord c = 160)"

definition isalnum :: "char \<Rightarrow> bool" where
  "isalnum c = ((48 \<le> ord c \<and> ord c \<le> 57) \<or> (65 \<le> ord c \<and> ord c \<le> 90)
                \<or> (97 \<le> ord c \<and> ord c \<le> 122)
                \<or> ord c = 170 \<or> ord c = 178 \<or> ord c = 179 \<or> ord c = 181
                \<or> ord c = 185 \<or> ord c = 186 \<or> (188 \<le> ord c \<and> ord c \<le> 190)
                \<or> (192 \<le> ord c \<and> ord c \<le> 214) \<or> (216 \<le> ord c \<and> ord c \<le> 246)
                \<or> 248 \<le> ord c)"

definition isword :: "char \<Rightarrow> bool" where
  "isword c = (isalnum c \<or> c = CHR ''_'')"

fun startswith :: "string \<Rightarrow> string \<Rightarrow> bool" where
  "startswith s [] = True"
| "startswith [] (p # ps) = False"
| "startswith (c # s) (p # ps) = (c = p \<and> startswith s ps)"

section \<open>Regular expressions as the two patterns use them\<close>

text \<open>
  The members of a bracketed set: a character, a range \<open>a-z\<close>, \<open>\\d\<close> or \<open>\\s\<close>;
  a set is \<open>[...]\<close> or its complement \<open>[^...]\<close>. A lone \<open>\\d\<close> is \<open>Set [Digit]\<close>.
\<close>

datatype item = Ch char | Range char char | Digit | Space

datatype cls = Set "item list" | NotSet "item list"

fun in_item :: "char \<Rightarrow> item \<Rightarrow> bool" where
  "in_item c (Ch d) = (c = d)"
| "in_item c (Range lo hi) = (ord lo \<le> ord c \<and> ord c \<le> ord hi)"
| "in_item c Digit = isdigit c"
| "in_item c Space = isspace c"

fun in_cls :: "cls \<Rightarrow> char \<Rightarrow> bool" where
  "in_cls (Set its) c = list_ex (in_item c) its"
| "in_cls (NotSet its) c = (\<not> list_ex (in_item c) its)"

text \<open>
  The constructs of the patterns in \<open>audit.py\<close>: literal text, a greedy repetition
  \<open>{lo,hi}\<close> of a set (\<open>?\<close> is \<open>{0,1}\<close>, \<open>*\<close> is \<open>{0,}\<close>, \<open>+\<close> is \<open>{1,}\<close>; every
  quantifier of the two patterns stands on a single character or set), sequence,
  ordered alternation, the negative lookbehind \<open>(?<!w)\<close> of a literal, the negative
  lookahead \<open>(?!r)\<close> and the word boundary \<open>\\b\<close>.
\<close>

datatype regex =
    Lit string
  | Rep cls nat "nat option"
  | Seq regex regex
  | Alt regex regex
  | NotBehind string
  | NotAhead regex
  | WordB

fun seqs :: "regex list \<Rightarrow> regex" where
  "seqs [] = Lit []"
| "seqs [r] = r"
| "seqs (r # rs) = Seq r (seqs rs)"

fun alts :: "regex list \<Rightarrow> regex" where
  "alts [] = NotAhead (Lit [])"
| "alts [r] = r"
| "alts (r # rs) = Alt r (alts rs)"

text \<open>
  A position in the text is the pair of the text before it, reversed, and the text
  after it. \<open>ends r p\<close> lists the positions at which an occurrence of \<open>r\<close> starting
  at \<open>p\<close> can end, in the order in which the backtracking matcher of \<open>re\<close> tries them:
  a greedy repetition from the longest run down, an alternation from left to right.
\<close>

type_synonym pos = "string \<times> string"

definition advance :: "pos \<Rightarrow> nat \<Rightarrow> pos" where
  "advance p k = (rev (take k (snd p)) @ fst p, drop k (snd p))"

definition at_boundary :: "pos \<Rightarrow> bool" where
  "at_boundary p =
     ((case fst p of [] \<Rightarrow> False | c # _ \<Rightarrow> isword c)
      \<noteq> (case snd p of [] \<Rightarrow> False | c # _ \<Rightarrow> isword c))"

fun ends :: "regex \<Rightarrow> pos \<Rightarrow> pos list" where
  "ends (Lit w) p = (if startswith (snd p) w then [advance p (length w)] else [])"
| "ends (Rep c lo hi) p =
     (let n = length (takeWhile (in_cls c) (snd p));
          m = (case hi of None \<Rightarrow> n | Some h \<Rightarrow> min h n)
      in map (advance p) (rev [lo..<Suc m]))"
| "ends (Seq a b) p = concat (map (ends b) (ends a p))"
| "ends (Alt a b) p = ends a p @ ends b p"
| "ends (NotBehind w) p = (if startswith (fst p) (rev w) then [] else [p])"
| "ends (NotAhead r) p = (if ends r p = [] then [p] else [])"
| "ends WordB p = (if at_boundary p then [p] else [])"

section \<open>The match objects of \<open>re.finditer\<close>\<close>

record rmatch =
  m_start :: nat
  m_end :: nat
  m_group :: string

definition mk_match :: "pos \<Rightarrow> pos \<Rightarrow> rmatch" where
  "mk_match p q =
     \<lparr>m_start = length (fst p), m_end = length (fst q),
      m_group = take (length (snd p) - length (snd q)) (snd p)\<rparr>"

text \<open>
  One search attempt at a position: the first end the matcher reaches. After an empty
  match \<open>finditer\<close> searches again from the same position with \<open>must_advance\<close> set,
  which refuses an empty match there.
\<close>

definition match_at :: "regex \<Rightarrow> pos \<Rightarrow> bool \<Rightarrow> pos option" where
  "match_at r p must_advance =
     (case filter (\<lambda>q. if must_advance then snd q \<noteq> snd p else True) (ends r p) of
        [] \<Rightarrow> None
      | q # _ \<Rightarrow> Some q)"

lemma advance_zero: "advance p 0 = p"
  by (simp add: advance_def)

lemma advance_twice:
  "advance (advance p j) k = advance p (j + k)"
proof -
  have "take k (drop j (snd p)) @ [] = drop j (take (j + k) (snd p))"
    by (simp add: drop_take)
  moreover have "take j (snd p) = take j (take (j + k) (snd p))"
    by (simp add: min_def)
  ultimately have "take j (snd p) @ take k (drop j (snd p)) = take (j + k) (snd p)"
    by (metis append_Nil2 append_take_drop_id)
  then have "rev (take k (drop j (snd p))) @ rev (take j (snd p)) = rev (take (j + k) (snd p))"
    by (metis rev_append)
  then show ?thesis
    by (simp add: advance_def add.commute)
qed

lemma startswith_take: "startswith s w = (take (length w) s = w)"
  by (induction s w rule: startswith.induct) auto

lemma ends_advance:
  "q \<in> set (ends r p) \<Longrightarrow> \<exists>k. q = advance p k"
proof (induction r arbitrary: p q)
  case (Seq a b)
  from Seq.prems obtain p' where p': "p' \<in> set (ends a p)" and q: "q \<in> set (ends b p')"
    by auto
  from Seq.IH(1)[OF p'] obtain j where "p' = advance p j" by blast
  moreover from Seq.IH(2)[OF q] obtain k where "q = advance p' k" by blast
  ultimately have "q = advance p (j + k)"
    by (simp add: advance_twice)
  then show ?case by blast
next
  case (Rep c lo hi)
  then show ?case by (auto simp: Let_def)
qed (auto split: if_splits intro: exI[of _ 0] simp: advance_zero)

lemma length_snd_advance: "length (snd (advance p k)) = length (snd p) - k"
  by (simp add: advance_def)

lemma ends_length: "q \<in> set (ends r p) \<Longrightarrow> length (snd q) \<le> length (snd p)"
  using ends_advance[of q r p] by (auto simp: length_snd_advance)

lemma drop_same_length: "length s - k = length s \<Longrightarrow> drop k s = s"
proof (cases "k = 0")
  case False
  assume "length s - k = length s"
  with False have "length s = 0" by arith
  then show ?thesis by simp
qed simp

lemma ends_same_length:
  "q \<in> set (ends r p) \<Longrightarrow> length (snd q) = length (snd p) \<Longrightarrow> snd q = snd p"
  using ends_advance[of q r p] by (auto simp: advance_def drop_same_length)

lemma match_at_Some:
  "match_at r p must = Some q \<Longrightarrow>
     q \<in> set (ends r p) \<and> (if must then snd q \<noteq> snd p else True)"
proof -
  assume "match_at r p must = Some q"
  then obtain qs where
    "filter (\<lambda>q. if must then snd q \<noteq> snd p else True) (ends r p) = q # qs"
    by (auto simp: match_at_def split: list.splits)
  then have "q \<in> set (filter (\<lambda>q. if must then snd q \<noteq> snd p else True) (ends r p))"
    by simp
  then show ?thesis by (simp split: if_splits)
qed

text \<open>
  \<open>re.finditer\<close>, as the scanner object of \<open>_sre\<close> runs it: search from the current
  position; on a match report it and go on from its end, with \<open>must_advance\<close> set when
  the match was empty; with no match at this position move one character on. The
  result is the list the iterator yields.
\<close>

function scan :: "regex \<Rightarrow> pos \<Rightarrow> bool \<Rightarrow> rmatch list" where
  "scan r p must_advance =
     (case match_at r p must_advance of
        Some q \<Rightarrow> mk_match p q # scan r q (snd q = snd p)
      | None \<Rightarrow> (case snd p of [] \<Rightarrow> [] | c # cs \<Rightarrow> scan r (advance p 1) False))"
  by pat_completeness auto
termination
proof (relation "measure (\<lambda>(r, p, must). 2 * length (snd p) + (if must then 0 else 1))")
  show "wf (measure (\<lambda>(r, p, must). 2 * length (snd p) + (if must then 0 else 1)))"
    by simp
next
  fix r :: regex and p :: pos and must_advance :: bool and q :: pos
  assume "match_at r p must_advance = Some q"
  then have q: "q \<in> set (ends r p)" and m: "if must_advance then snd q \<noteq> snd p else True"
    using match_at_Some by blast+
  from q have le: "length (snd q) \<le> length (snd p)" by (rule ends_length)
  show "((r, q, snd q = snd p), (r, p, must_advance))
      \<in> measure (\<lambda>(r, p, must). 2 * length (snd p) + (if must then 0 else 1))"
  proof (cases "snd q = snd p")
    case True
    with m have "\<not> must_advance" by (auto split: if_splits)
    with True show ?thesis by simp
  next
    case False
    with q have "length (snd q) \<noteq> length (snd p)"
      using ends_same_length by blast
    with le have "length (snd q) < length (snd p)" by simp
    with False show ?thesis by simp
  qed
next
  fix r :: regex and p :: pos and must_advance :: bool and c :: char and cs :: string
  assume "snd p = c # cs"
  then show "((r, advance p 1, False), (r, p, must_advance))
      \<in> measure (\<lambda>(r, p, must). 2 * length (snd p) + (if must then 0 else 1))"
    by (simp add: length_snd_advance)
qed

declare scan.simps [simp del]

section \<open>The two rules of \<open>audit.py\<close>\<close>

text \<open>
  \<^verbatim>\<open>(?<!\[)(?:\d{1,4}[,\d]*\s?(?:bytes?|B|KB|MB|GB|ms|s|line\s?\d+|row|rows|duplicate))(?![^\[]*\])\<close>
\<close>

definition units :: regex where
  "units =
     alts [Seq (Lit ''byte'') (Rep (Set [Ch (CHR ''s'')]) 0 (Some 1)),
           Lit ''B'', Lit ''KB'', Lit ''MB'', Lit ''GB'', Lit ''ms'', Lit ''s'',
           seqs [Lit ''line'', Rep (Set [Space]) 0 (Some 1), Rep (Set [Digit]) 1 None],
           Lit ''row'', Lit ''rows'', Lit ''duplicate'']"

definition suspect_number_pattern :: regex where
  "suspect_number_pattern =
     seqs [NotBehind ''['',
           seqs [Rep (Set [Digit]) 1 (Some 4),
                 Rep (Set [Ch (CHR '',''), Digit]) 0 None,
                 Rep (Set [Space]) 0 (Some 1),
                 units],
           NotAhead (Seq (Rep (NotSet [Ch (CHR ''['')]) 0 None) (Lit '']''))]"

definition find_suspect_numbers :: "string \<Rightarrow> rmatch list" where
  "find_suspect_numbers text = scan suspect_number_pattern ([], text) False"

text \<open>
  \<^verbatim>\<open>[a-zA-Z0-9_/]+\.rs:\d+|[a-z_]+\(\)|\bunwrap\(\)|\bprost::\<close>
\<close>

definition fake_path_pattern :: regex where
  "fake_path_pattern =
     alts [seqs [Rep (Set [Range (CHR ''a'') (CHR ''z''), Range (CHR ''A'') (CHR ''Z''),
                           Range (CHR ''0'') (CHR ''9''), Ch (CHR ''_''), Ch (CHR ''/'')]) 1 None,
                 Lit ''.rs:'',
                 Rep (Set [Digit]) 1 None],
           seqs [Rep (Set [Range (CHR ''a'') (CHR ''z''), Ch (CHR ''_'')]) 1 None, Lit ''()''],
           seqs [WordB, Lit ''unwrap()''],
           seqs [WordB, Lit ''prost::'']]"

definition find_fake_paths :: "string \<Rightarrow> rmatch list" where
  "find_fake_paths text = scan fake_path_pattern ([], text) False"

section \<open>The string operations of \<open>main\<close>\<close>

text \<open>\<open>w in s\<close>: the text \<open>w\<close> occurs in \<open>s\<close>.\<close>

fun contains :: "string \<Rightarrow> string \<Rightarrow> bool" where
  "contains [] w = (w = [])"
| "contains (c # s) w = (startswith (c # s) w \<or> contains s w)"

text \<open>
  A slice \<open>xs[i:j]\<close>: a negative index counts from the end, and both indices are
  clamped to the bounds of the list.
\<close>

definition slice_index :: "int \<Rightarrow> nat \<Rightarrow> nat" where
  "slice_index i n = (if i < 0 then nat (max 0 (i + int n)) else min (nat i) n)"

definition py_slice :: "'a list \<Rightarrow> int \<Rightarrow> int \<Rightarrow> 'a list" where
  "py_slice xs i j =
     (let a = slice_index i (length xs); b = slice_index j (length xs)
      in take (b - a) (drop a xs))"

definition replace :: "char \<Rightarrow> char \<Rightarrow> string \<Rightarrow> string" where
  "replace old new s = map (\<lambda>c. if c = old then new else c) s"

definition strip :: "string \<Rightarrow> string" where
  "strip s = rev (dropWhile isspace (rev (dropWhile isspace s)))"

fun str_nat :: "nat \<Rightarrow> string" where
  "str_nat n =
     (if n < 10 then [char_of (48 + n)]
      else str_nat (n div 10) @ [char_of (48 + n mod 10)])"

declare str_nat.simps [simp del]

section \<open>What the console is asked to print\<close>

text \<open>
  The literals of the script hold code points above 255 (the check mark, the dash and
  the fire sign), so printed text is a list of code points. The console of \<open>rich\<close> is
  outside the script. The model records the argument of each \<open>console.print\<close> that
  returned, in order: what the script hands to the console, not the characters the
  terminal shows.
\<close>

type_synonym pystr = "nat list"

definition lit :: "string \<Rightarrow> pystr" where
  "lit s = map ord s"

record table =
  t_title :: pystr
  t_columns :: "pystr list"
  t_rows :: "pystr list list"

datatype printed = Styled pystr string | Rendered table

text \<open>
  \<open>rich\<close> reads every cell of a table as console markup when it prints the table: tags
  in square brackets are interpreted, not shown, and a closing tag that closes nothing
  makes \<open>console.print(table)\<close> raise \<open>MarkupError\<close>. The cells of \<open>main\<close> hold text of the
  scanned document, unescaped, so whether the table is printed depends on \<open>rich\<close>: the
  console is a parameter that says, for each table, whether \<open>console.print\<close> returns.
  The three messages of the script are literals without square brackets.
\<close>

type_synonym console = "table \<Rightarrow> bool"

definition clean_message :: pystr where
  "clean_message = [0x2705] @ lit '' Clean '' @ [0x2013] @ lit '' no obvious hallucinations detected''"

definition alerts_title :: pystr where
  "alerts_title = lit ''Hallucination Alerts '' @ [0x1F525]"

definition found_message :: "nat \<Rightarrow> pystr" where
  "found_message n =
     lit (CHR 0x0A # ''Found '' @ str_nat n
          @ '' potential hallucinations. Fix or flag before publishing.'')"

definition usage_message :: pystr where
  "usage_message = lit ''Usage: python audit.py <markdown-file>''"

section \<open>\<open>load_file\<close>, \<open>main\<close> and the script\<close>

text \<open>
  \<open>Path(path).read_text()\<close> returns the text of the file or raises; the file system
  is the function that says which.
\<close>

datatype io_error = FileNotFoundError | PermissionError | IsADirectoryError | UnicodeDecodeError

type_synonym filesystem = "string \<Rightarrow> io_error + string"

definition load_file :: "filesystem \<Rightarrow> string \<Rightarrow> io_error + string" where
  "load_file fs path = fs path"

text \<open>The loop body of \<open>main\<close>: the three cells of one table row.\<close>

definition type_label :: "rmatch \<Rightarrow> string" where
  "type_label m =
     (if contains (m_group m) ''line'' \<or> contains (m_group m) ''row''
      then ''Line/Reference'' else ''Number/Unit'')"

definition context_window :: "string \<Rightarrow> rmatch \<Rightarrow> string" where
  "context_window text m =
     (let start = max 0 (int (m_start m) - 30);
          stop = min (int (length text)) (int (m_end m) + 30)
      in replace (CHR 0x0A) (CHR '' '') (py_slice text start stop))"

definition add_row :: "string \<Rightarrow> rmatch \<Rightarrow> pystr list" where
  "add_row text m =
     [lit (type_label m), lit (m_group m),
      lit (py_slice (strip (context_window text m)) 0 120 @ ''...'')]"

text \<open>The table after the loop of \<open>main\<close>: the title, the three columns, one row per match.\<close>

definition alerts_table :: "string \<Rightarrow> rmatch list \<Rightarrow> table" where
  "alerts_table text issues =
     \<lparr>t_title = alerts_title,
      t_columns = [lit ''Type'', lit ''Match'', lit ''Context''],
      t_rows = map (add_row text) issues\<rparr>"

text \<open>
  \<open>main\<close> returns normally with what it printed, or an exception leaves it: that of
  \<open>load_file\<close>, or that of \<open>console.print(table)\<close>; both come before anything is printed.
\<close>

datatype error = LoadError io_error | MarkupError

definition main :: "console \<Rightarrow> filesystem \<Rightarrow> string \<Rightarrow> error + printed list" where
  "main console fs file_path =
     (case load_file fs file_path of
        Inl e \<Rightarrow> Inl (LoadError e)
      | Inr text \<Rightarrow>
          (let issues = find_suspect_numbers text @ find_fake_paths text
           in if issues = [] then Inr [Styled clean_message ''bold green'']
              else if console (alerts_table text issues)
                   then Inr [Rendered (alerts_table text issues),
                             Styled (found_message (length issues)) ''bold red'']
                   else Inl MarkupError))"

text \<open>
  The \<open>__main__\<close> block. A process ends by \<open>sys.exit(n)\<close>, by reaching the end of the
  script (status 0), or by an exception nobody catches (the interpreter prints the
  traceback and the status is 1).
\<close>

datatype outcome = Exit nat | Traceback error

fun exit_code :: "outcome \<Rightarrow> nat" where
  "exit_code (Exit n) = n"
| "exit_code (Traceback e) = 1"

definition script :: "console \<Rightarrow> filesystem \<Rightarrow> string list \<Rightarrow> printed list \<times> outcome" where
  "script console fs argv =
     (if length argv \<noteq> 2 then ([Styled usage_message ''bold''], Exit 1)
      else (case main console fs (argv ! 1) of
              Inl e \<Rightarrow> ([], Traceback e)
            | Inr out \<Rightarrow> (out, Exit 0)))"

text \<open>
  Sample surroundings: a console that prints every table, one that refuses every table,
  a file system without files, and one in which every path holds the same text.
\<close>

definition accepting_console :: console where
  "accepting_console t = True"

definition refusing_console :: console where
  "refusing_console t = False"

definition no_files :: filesystem where
  "no_files path = Inl FileNotFoundError"

definition file_with :: "string \<Rightarrow> filesystem" where
  "file_with text path = Inr text"

section \<open>Evaluating the second rule on its sample tokens\<close>


lemma fake_path_example_rs:
  "find_fake_paths ''src/main.rs:42'' = [\<lparr>m_start = 0, m_end = 14, m_group = ''src/main.rs:42''\<rparr>]"
  by code_simp

lemma fake_path_example_call:
  "find_fake_paths ''foo_bar()'' = [\<lparr>m_start = 0, m_end = 9, m_group = ''foo_bar()''\<rparr>]"
  by code_simp

lemma fake_path_example_unwrap:
  "find_fake_paths ''unwrap()'' = [\<lparr>m_start = 0, m_end = 8, m_group = ''unwrap()''\<rparr>]"
  by code_simp

lemma fake_path_example_prost:
  "find_fake_paths ''prost::'' = [\<lparr>m_start = 0, m_end = 7, m_group = ''prost::''\<rparr>]"
  by code_simp

lemma fake_path_example_label:
  "type_label \<lparr>m_start = 0, m_end = 14, m_group = ''src/main.rs:42''\<rparr> = ''Number/Unit''
   \<and> contains ''src/main.rs:42'' ''line'' = False \<and> contains ''src/main.rs:42'' ''row'' = False"
  by code_simp

section \<open>Single runs\<close>

text \<open>
  Claim C3. On each of the inputs \<open>src/main.rs:42\<close>, \<open>foo_bar()\<close>, \<open>unwrap()\<close> and
  \<open>prost::\<close> the second rule yields exactly one match, whose text is the whole input;
  the match on \<open>src/main.rs:42\<close> is labelled \<open>Number/Unit\<close>, since neither \<open>line\<close> nor
  \<open>row\<close> occurs in it.
\<close>

theorem fake_path_tokens:
  "find_fake_paths ''src/main.rs:42'' = [\<lparr>m_start = 0, m_end = 14, m_group = ''src/main.rs:42''\<rparr>]
   \<and> find_fake_paths ''foo_bar()'' = [\<lparr>m_start = 0, m_end = 9, m_group = ''foo_bar()''\<rparr>]
   \<and> find_fake_paths ''unwrap()'' = [\<lparr>m_start = 0, m_end = 8, m_group = ''unwrap()''\<rparr>]
   \<and> find_fake_paths ''prost::'' = [\<lparr>m_start = 0, m_end = 7, m_group = ''prost::''\<rparr>]
   \<and> map type_label (find_fake_paths ''src/main.rs:42'') = [''Number/Unit'']
   \<and> contains ''src/main.rs:42'' ''line'' = False
   \<and> contains ''src/main.rs:42'' ''row'' = False"
  using fake_path_example_rs fake_path_example_call fake_path_example_unwrap
    fake_path_example_prost fake_path_example_label
  by simp

lemma usage_not_clean: "(usage_message = clean_message) = False"
  by (simp add: clean_message_def usage_message_def lit_def ord_def)

lemma usage_not_found: "(usage_message = found_message n) = False"
  by (simp add: found_message_def usage_message_def lit_def ord_def)

lemma main_never_prints_usage:
  "main console fs path = Inr out \<Longrightarrow> Styled usage_message sty \<notin> set out"
  by (auto simp: main_def Let_def usage_not_clean usage_not_found
           split: sum.splits if_splits)

lemma main_not_loaded:
  "load_file fs path = Inl e \<Longrightarrow> main console fs path = Inl (LoadError e)"
  by (simp add: main_def)

lemma main_findings:
  "load_file fs path = Inr text \<Longrightarrow>
   find_suspect_numbers text @ find_fake_paths text \<noteq> [] \<Longrightarrow>
   main console fs path
     = (if console (alerts_table text (find_suspect_numbers text @ find_fake_paths text))
        then Inr [Rendered (alerts_table text (find_suspect_numbers text @ find_fake_paths text)),
                  Styled (found_message (length (find_suspect_numbers text @ find_fake_paths text)))
                    ''bold red'']
        else Inl MarkupError)"
  by (auto simp: main_def Let_def)

lemma main_clean:
  "load_file fs path = Inr text \<Longrightarrow>
   find_suspect_numbers text @ find_fake_paths text = [] \<Longrightarrow>
   main console fs path = Inr [Styled clean_message ''bold green'']"
  by (auto simp: main_def Let_def)

lemma main_failure:
  assumes "main console fs path = Inl err"
  shows "(\<exists>e. load_file fs path = Inl e \<and> err = LoadError e)
     \<or> (\<exists>text. load_file fs path = Inr text \<and> err = MarkupError
           \<and> find_suspect_numbers text @ find_fake_paths text \<noteq> []
           \<and> \<not> console (alerts_table text (find_suspect_numbers text @ find_fake_paths text)))"
proof (cases "load_file fs path")
  case (Inl e)
  with assms show ?thesis by (simp add: main_def)
next
  case (Inr body)
  show ?thesis
  proof (cases "find_suspect_numbers body @ find_fake_paths body = []")
    case True
    with Inr assms show ?thesis using main_clean [OF Inr True, of console] by simp
  next
    case False
    with Inr assms show ?thesis
      using main_findings [OF Inr False, of console] by (simp split: if_splits)
  qed
qed

text \<open>
  Claim C6. When the file loads and neither rule finds a match, \<open>main\<close> prints the one
  success line, styled \<open>bold green\<close>, and nothing else, and returns normally: the script
  ends with status 0. This holds for every console.
\<close>

theorem clean_scan_output:
  assumes "load_file fs path = Inr text"
    and "find_suspect_numbers text = []"
    and "find_fake_paths text = []"
  shows "main console fs path = Inr [Styled clean_message ''bold green'']
         \<and> script console fs [prog, path] = ([Styled clean_message ''bold green''], Exit 0)"
  using assms by (simp add: main_def script_def)

theorem clean_scan_output_witness:
  "main refusing_console (file_with ''Nothing to flag here.'') ''notes.md''
     = Inr [Styled clean_message ''bold green'']
   \<and> script refusing_console (file_with ''Nothing to flag here.'') [''audit.py'', ''notes.md'']
       = ([Styled clean_message ''bold green''], Exit 0)"
proof -
  have a: "load_file (file_with ''Nothing to flag here.'') ''notes.md'' = Inr ''Nothing to flag here.''"
    by (simp add: load_file_def file_with_def)
  have b: "find_suspect_numbers ''Nothing to flag here.'' = []"
    by code_simp
  have c: "find_fake_paths ''Nothing to flag here.'' = []"
    by code_simp
  show ?thesis
    using clean_scan_output [OF a b c, of refusing_console "''audit.py''"] by simp
qed

section \<open>The cells of the table\<close>

text \<open>The rows of the tables among what was printed.\<close>

fun rows_of :: "printed \<Rightarrow> pystr list list" where
  "rows_of (Rendered t) = t_rows t"
| "rows_of (Styled s sty) = []"

definition printed_rows :: "printed list \<Rightarrow> pystr list list" where
  "printed_rows out = concat (map rows_of out)"

text \<open>
  The words of the specification, to compare \<open>main\<close> with: a text occurs in another;
  the context window as the characters at the positions from \<open>start - 30\<close> (not below
  0) up to \<open>end + 30\<close> (not beyond the text); trimming as dropping the leading blanks
  and then the trailing ones.
\<close>

definition occurs_in :: "string \<Rightarrow> string \<Rightarrow> bool" where
  "occurs_in w s = (\<exists>u v. s = u @ w @ v)"

definition spec_window :: "string \<Rightarrow> rmatch \<Rightarrow> string" where
  "spec_window text m = map (nth text) [m_start m - 30 ..< min (length text) (m_end m + 30)]"

definition spec_trim :: "string \<Rightarrow> string" where
  "spec_trim s =
     (let t = dropWhile isspace s
      in take (length t - length (takeWhile isspace (rev t))) t)"

definition spec_body :: "string \<Rightarrow> rmatch \<Rightarrow> string" where
  "spec_body text m =
     take 120 (spec_trim (map (\<lambda>c. if c = CHR 0x0A then CHR '' '' else c) (spec_window text m)))"

lemma startswith_append: "startswith s w = (\<exists>v. s = w @ v)"
  by (induction s w rule: startswith.induct) auto

lemma contains_occurs: "contains s w = occurs_in w s"
proof (induction s)
  case Nil
  then show ?case by (auto simp: occurs_in_def)
next
  case (Cons c s)
  show ?case
  proof
    assume "contains (c # s) w"
    then consider "startswith (c # s) w" | "contains s w" by auto
    then show "occurs_in w (c # s)"
    proof cases
      case 1
      then obtain v where "c # s = [] @ w @ v" by (auto simp: startswith_append)
      then show ?thesis unfolding occurs_in_def by blast
    next
      case 2
      with Cons obtain u v where "s = u @ w @ v" by (auto simp: occurs_in_def)
      then have "c # s = (c # u) @ w @ v" by simp
      then show ?thesis unfolding occurs_in_def by blast
    qed
  next
    assume "occurs_in w (c # s)"
    then obtain u v where uv: "c # s = u @ w @ v" by (auto simp: occurs_in_def)
    show "contains (c # s) w"
    proof (cases u)
      case Nil
      with uv have "startswith (c # s) w" by (auto simp: startswith_append)
      then show ?thesis by simp
    next
      case (Cons d u')
      with uv have "s = u' @ w @ v" by simp
      then have "occurs_in w s" unfolding occurs_in_def by blast
      with Cons.IH show ?thesis by simp
    qed
  qed
qed

lemma take_drop_nth:
  "b \<le> length xs \<Longrightarrow> take (b - a) (drop a xs) = map (nth xs) [a..<b]"
  by (rule nth_equalityI) auto

lemma py_slice_nat:
  "b \<le> length xs \<Longrightarrow> py_slice xs (int a) (int b) = map (nth xs) [a..<b]"
proof (cases "a \<le> length xs")
  case True
  assume "b \<le> length xs"
  with True show ?thesis
    by (simp add: py_slice_def slice_index_def min_def take_drop_nth)
next
  case False
  assume "b \<le> length xs"
  with False show ?thesis
    by (simp add: py_slice_def slice_index_def min_def)
qed

lemma py_slice_take: "py_slice xs 0 (int n) = take n xs"
  by (simp add: py_slice_def slice_index_def min_def)

lemma rev_dropWhile_rev:
  "rev (dropWhile P (rev t)) = take (length t - length (takeWhile P (rev t))) t"
proof -
  have "rev (takeWhile P (rev t) @ dropWhile P (rev t)) = t"
    by (simp only: takeWhile_dropWhile_id rev_rev_ident)
  then have t: "t = rev (dropWhile P (rev t)) @ rev (takeWhile P (rev t))"
    by (simp only: rev_append)
  have "length (rev (dropWhile P (rev t))) = length t - length (takeWhile P (rev t))"
    by (metis add_diff_cancel_right' length_append length_rev t)
  then show ?thesis
    by (metis append_eq_conv_conj t)
qed

lemma strip_spec_trim: "strip s = spec_trim s"
  by (simp add: strip_def spec_trim_def Let_def rev_dropWhile_rev)

lemma context_window_spec:
  "context_window text m
     = map (\<lambda>c. if c = CHR 0x0A then CHR '' '' else c) (spec_window text m)"
proof -
  have a: "max 0 (int (m_start m) - 30) = int (m_start m - 30)" by simp
  have b: "min (int (length text)) (int (m_end m) + 30) = int (min (length text) (m_end m + 30))"
    by simp
  show ?thesis
    unfolding context_window_def Let_def a b spec_window_def replace_def
    by (simp add: py_slice_nat)
qed

lemma add_row_spec:
  "add_row text m = [lit (type_label m), lit (m_group m), lit (spec_body text m @ ''...'')]"
  using py_slice_take [of "strip (context_window text m)" 120]
  by (simp add: add_row_def spec_body_def strip_spec_trim context_window_spec)

lemma type_label_spec:
  "type_label m = (if occurs_in ''line'' (m_group m) \<or> occurs_in ''row'' (m_group m)
                   then ''Line/Reference'' else ''Number/Unit'')"
  by (simp add: type_label_def contains_occurs)

lemma main_rows:
  "load_file fs path = Inr text \<Longrightarrow> main console fs path = Inr out \<Longrightarrow>
     printed_rows out = map (add_row text) (find_suspect_numbers text @ find_fake_paths text)"
  by (auto simp: main_def Let_def printed_rows_def alerts_table_def split: if_splits)

lemma spec_body_length: "length (spec_body text m) \<le> 120"
  by (simp add: spec_body_def)

text \<open>
  Claim C4. In the table that \<open>main\<close> hands to \<open>console.print\<close>, the first cell of every
  row, for the matches of the first rule and then those of the second alike, is
  \<open>Line/Reference\<close> exactly when \<open>line\<close> or \<open>row\<close> occurs in the matched text, and
  \<open>Number/Unit\<close> otherwise. With matches found, \<open>main\<close> hands exactly this table to the
  console, and whenever \<open>main\<close> returns these are the first cells of the rows printed.
\<close>

theorem category_of_every_match:
  assumes "load_file fs path = Inr text"
  shows "map (\<lambda>row. row ! 0)
           (t_rows (alerts_table text (find_suspect_numbers text @ find_fake_paths text)))
         = map (\<lambda>m. lit (if occurs_in ''line'' (m_group m) \<or> occurs_in ''row'' (m_group m)
                         then ''Line/Reference'' else ''Number/Unit''))
             (find_suspect_numbers text @ find_fake_paths text)
     \<and> (find_suspect_numbers text @ find_fake_paths text \<noteq> [] \<longrightarrow>
          main console fs path
            = (if console (alerts_table text (find_suspect_numbers text @ find_fake_paths text))
               then Inr [Rendered (alerts_table text (find_suspect_numbers text @ find_fake_paths text)),
                         Styled (found_message (length (find_suspect_numbers text @ find_fake_paths text)))
                           ''bold red'']
               else Inl MarkupError))
     \<and> (main console fs path = Inr out \<longrightarrow>
          map (\<lambda>row. row ! 0) (printed_rows out)
          = map (\<lambda>m. lit (if occurs_in ''line'' (m_group m) \<or> occurs_in ''row'' (m_group m)
                          then ''Line/Reference'' else ''Number/Unit''))
              (find_suspect_numbers text @ find_fake_paths text))"
proof (intro conjI impI)
  show "map (\<lambda>row. row ! 0)
           (t_rows (alerts_table text (find_suspect_numbers text @ find_fake_paths text)))
         = map (\<lambda>m. lit (if occurs_in ''line'' (m_group m) \<or> occurs_in ''row'' (m_group m)
                         then ''Line/Reference'' else ''Number/Unit''))
             (find_suspect_numbers text @ find_fake_paths text)"
    by (simp add: alerts_table_def add_row_def type_label_spec)
next
  assume "find_suspect_numbers text @ find_fake_paths text \<noteq> []"
  with assms show "main console fs path
            = (if console (alerts_table text (find_suspect_numbers text @ find_fake_paths text))
               then Inr [Rendered (alerts_table text (find_suspect_numbers text @ find_fake_paths text)),
                         Styled (found_message (length (find_suspect_numbers text @ find_fake_paths text)))
                           ''bold red'']
               else Inl MarkupError)"
    by (rule main_findings)
next
  assume "main console fs path = Inr out"
  with assms have "printed_rows out
      = map (add_row text) (find_suspect_numbers text @ find_fake_paths text)"
    by (rule main_rows)
  then show "map (\<lambda>row. row ! 0) (printed_rows out)
          = map (\<lambda>m. lit (if occurs_in ''line'' (m_group m) \<or> occurs_in ''row'' (m_group m)
                          then ''Line/Reference'' else ''Number/Unit''))
              (find_suspect_numbers text @ find_fake_paths text)"
    by (simp add: add_row_def type_label_spec)
qed

text \<open>
  Claim C5. In the table that \<open>main\<close> hands to \<open>console.print\<close>, the third cell of every
  row is the window of the text from 30 characters before the start of the match to 30
  characters after its end, clamped to the text, with each newline replaced by a space,
  stripped, cut to 120 characters, and followed by \<open>...\<close> in every case; the part before
  the marker never exceeds 120 characters. With matches found, \<open>main\<close> hands exactly
  this table to the console, and whenever \<open>main\<close> returns these are the third cells of
  the rows printed. What the terminal shows of a cell is the console's rendering of it.
\<close>

theorem context_cell_of_every_match:
  assumes "load_file fs path = Inr text"
  shows "map (\<lambda>row. row ! 2)
           (t_rows (alerts_table text (find_suspect_numbers text @ find_fake_paths text)))
         = map (\<lambda>m. lit (spec_body text m @ ''...''))
             (find_suspect_numbers text @ find_fake_paths text)
     \<and> (\<forall>m. length (spec_body text m) \<le> 120)
     \<and> (find_suspect_numbers text @ find_fake_paths text \<noteq> [] \<longrightarrow>
          main console fs path
            = (if console (alerts_table text (find_suspect_numbers text @ find_fake_paths text))
               then Inr [Rendered (alerts_table text (find_suspect_numbers text @ find_fake_paths text)),
                         Styled (found_message (length (find_suspect_numbers text @ find_fake_paths text)))
                           ''bold red'']
               else Inl MarkupError))
     \<and> (main console fs path = Inr out \<longrightarrow>
          map (\<lambda>row. row ! 2) (printed_rows out)
          = map (\<lambda>m. lit (spec_body text m @ ''...''))
              (find_suspect_numbers text @ find_fake_paths text))"
proof (intro conjI impI allI)
  show "map (\<lambda>row. row ! 2)
           (t_rows (alerts_table text (find_suspect_numbers text @ find_fake_paths text)))
         = map (\<lambda>m. lit (spec_body text m @ ''...''))
             (find_suspect_numbers text @ find_fake_paths text)"
    by (simp add: alerts_table_def add_row_spec)
next
  fix m show "length (spec_body text m) \<le> 120" by (rule spec_body_length)
next
  assume "find_suspect_numbers text @ find_fake_paths text \<noteq> []"
  with assms show "main console fs path
            = (if console (alerts_table text (find_suspect_numbers text @ find_fake_paths text))
               then Inr [Rendered (alerts_table text (find_suspect_numbers text @ find_fake_paths text)),
                         Styled (found_message (length (find_suspect_numbers text @ find_fake_paths text)))
                           ''bold red'']
               else Inl MarkupError)"
    by (rule main_findings)
next
  assume "main console fs path = Inr out"
  with assms have "printed_rows out
      = map (add_row text) (find_suspect_numbers text @ find_fake_paths text)"
    by (rule main_rows)
  then show "map (\<lambda>row. row ! 2) (printed_rows out)
          = map (\<lambda>m. lit (spec_body text m @ ''...''))
              (find_suspect_numbers text @ find_fake_paths text)"
    by (simp add: add_row_spec)
qed

lemma sample_suspect_numbers:
  "find_suspect_numbers ''5 rows throw() src/main.rs:42''
     = [\<lparr>m_start = 0, m_end = 5, m_group = ''5 row''\<rparr>]"
  by code_simp

lemma sample_fake_paths:
  "find_fake_paths ''5 rows throw() src/main.rs:42''
     = [\<lparr>m_start = 7, m_end = 14, m_group = ''throw()''\<rparr>,
        \<lparr>m_start = 15, m_end = 29, m_group = ''src/main.rs:42''\<rparr>]"
  by code_simp

lemma sample_occurrences:
  "occurs_in ''row'' ''5 row'' = True"
  "occurs_in ''line'' ''throw()'' = False"
  "occurs_in ''row'' ''throw()'' = True"
  "occurs_in ''line'' ''src/main.rs:42'' = False"
  "occurs_in ''row'' ''src/main.rs:42'' = False"
  unfolding contains_occurs [symmetric] by code_simp+

theorem category_of_every_match_witness:
  "map (\<lambda>row. row ! 0)
     (t_rows (alerts_table ''5 rows throw() src/main.rs:42''
        (find_suspect_numbers ''5 rows throw() src/main.rs:42''
         @ find_fake_paths ''5 rows throw() src/main.rs:42'')))
     = [lit ''Line/Reference'', lit ''Line/Reference'', lit ''Number/Unit'']
   \<and> (\<exists>out. main accepting_console (file_with ''5 rows throw() src/main.rs:42'') ''notes.md'' = Inr out
         \<and> map (\<lambda>row. row ! 0) (printed_rows out)
           = [lit ''Line/Reference'', lit ''Line/Reference'', lit ''Number/Unit''])
   \<and> main refusing_console (file_with ''5 rows throw() src/main.rs:42'') ''notes.md'' = Inl MarkupError"
proof -
  let ?T = "''5 rows throw() src/main.rs:42''"
  have l: "load_file (file_with ?T) ''notes.md'' = Inr ?T"
    by (simp add: load_file_def file_with_def)
  have ne: "find_suspect_numbers ?T @ find_fake_paths ?T \<noteq> []"
    by (simp add: sample_suspect_numbers)
  note c = category_of_every_match [OF l]
  have 1: "map (\<lambda>row. row ! 0) (t_rows (alerts_table ?T (find_suspect_numbers ?T @ find_fake_paths ?T)))
     = [lit ''Line/Reference'', lit ''Line/Reference'', lit ''Number/Unit'']"
    using c [of accepting_console "[]"]
    by (simp add: sample_suspect_numbers sample_fake_paths sample_occurrences)
  from c [of accepting_console "[]"] ne obtain out where
    out: "main accepting_console (file_with ?T) ''notes.md'' = Inr out"
    by (simp add: accepting_console_def)
  with c [of accepting_console out]
  have 2: "map (\<lambda>row. row ! 0) (printed_rows out)
           = [lit ''Line/Reference'', lit ''Line/Reference'', lit ''Number/Unit'']"
    by (simp add: sample_suspect_numbers sample_fake_paths sample_occurrences)
  have 3: "main refusing_console (file_with ?T) ''notes.md'' = Inl MarkupError"
    using c [of refusing_console "[]"] ne by (simp add: refusing_console_def)
  from out 2 have 4: "\<exists>out. main accepting_console (file_with ?T) ''notes.md'' = Inr out
         \<and> map (\<lambda>row. row ! 0) (printed_rows out)
           = [lit ''Line/Reference'', lit ''Line/Reference'', lit ''Number/Unit'']"
    by (intro exI [of _ out] conjI)
  show ?thesis
    by (rule conjI [OF 1 conjI [OF 4 3]])
qed

lemma sample2_suspect_numbers:
  "find_suspect_numbers ''  took 10 seconds\<newline>in src/main.rs:42  ''
     = [\<lparr>m_start = 7, m_end = 11, m_group = ''10 s''\<rparr>]"
  by code_simp

lemma sample2_fake_paths:
  "find_fake_paths ''  took 10 seconds\<newline>in src/main.rs:42  ''
     = [\<lparr>m_start = 21, m_end = 35, m_group = ''src/main.rs:42''\<rparr>]"
  by code_simp

lemma sample2_bodies:
  "spec_body ''  took 10 seconds\<newline>in src/main.rs:42  ''
      \<lparr>m_start = 7, m_end = 11, m_group = ''10 s''\<rparr> = ''took 10 seconds in src/main.rs:42''"
  "spec_body ''  took 10 seconds\<newline>in src/main.rs:42  ''
      \<lparr>m_start = 21, m_end = 35, m_group = ''src/main.rs:42''\<rparr> = ''took 10 seconds in src/main.rs:42''"
  by code_simp+

theorem context_cell_of_every_match_witness:
  "map (\<lambda>row. row ! 2)
     (t_rows (alerts_table ''  took 10 seconds\<newline>in src/main.rs:42  ''
        (find_suspect_numbers ''  took 10 seconds\<newline>in src/main.rs:42  ''
         @ find_fake_paths ''  took 10 seconds\<newline>in src/main.rs:42  '')))
     = [lit ''took 10 seconds in src/main.rs:42...'', lit ''took 10 seconds in src/main.rs:42...'']
   \<and> (\<exists>out. main accepting_console (file_with ''  took 10 seconds\<newline>in src/main.rs:42  '') ''notes.md''
            = Inr out
         \<and> map (\<lambda>row. row ! 2) (printed_rows out)
           = [lit ''took 10 seconds in src/main.rs:42...'', lit ''took 10 seconds in src/main.rs:42...''])
   \<and> main refusing_console (file_with ''  took 10 seconds\<newline>in src/main.rs:42  '') ''notes.md''
       = Inl MarkupError"
proof -
  let ?T = "''  took 10 seconds\<newline>in src/main.rs:42  ''"
  have l: "load_file (file_with ?T) ''notes.md'' = Inr ?T"
    by (simp add: load_file_def file_with_def)
  have ne: "find_suspect_numbers ?T @ find_fake_paths ?T \<noteq> []"
    by (simp add: sample2_suspect_numbers)
  note c = context_cell_of_every_match [OF l]
  have 1: "map (\<lambda>row. row ! 2) (t_rows (alerts_table ?T (find_suspect_numbers ?T @ find_fake_paths ?T)))
     = [lit ''took 10 seconds in src/main.rs:42...'', lit ''took 10 seconds in src/main.rs:42...'']"
    using c [of accepting_console "[]"]
    by (simp add: sample2_suspect_numbers sample2_fake_paths sample2_bodies)
  from c [of accepting_console "[]"] ne obtain out where
    out: "main accepting_console (file_with ?T) ''notes.md'' = Inr out"
    by (simp add: accepting_console_def)
  with c [of accepting_console out]
  have 2: "map (\<lambda>row. row ! 2) (printed_rows out)
           = [lit ''took 10 seconds in src/main.rs:42...'', lit ''took 10 seconds in src/main.rs:42...'']"
    by (simp add: sample2_suspect_numbers sample2_fake_paths sample2_bodies)
  have 3: "main refusing_console (file_with ?T) ''notes.md'' = Inl MarkupError"
    using c [of refusing_console "[]"] ne by (simp add: refusing_console_def)
  from out 2 have 4: "\<exists>out. main accepting_console (file_with ?T) ''notes.md'' = Inr out
         \<and> map (\<lambda>row. row ! 2) (printed_rows out)
           = [lit ''took 10 seconds in src/main.rs:42...'', lit ''took 10 seconds in src/main.rs:42...'']"
    by (intro exI [of _ out] conjI)
  show ?thesis
    by (rule conjI [OF 1 conjI [OF 4 3]])
qed

section \<open>The lookahead of the first rule\<close>

text \<open>
  A closing bracket comes before any opening bracket: what the lookahead
  \<^verbatim>\<open>(?![^\[]*\])\<close> refuses.
\<close>

definition closing_first :: "string \<Rightarrow> bool" where
  "closing_first s = (CHR '']'' \<in> set (takeWhile (\<lambda>c. c \<noteq> CHR ''['') s))"

lemma advance_clamp: "advance p k = advance p (min k (length (snd p)))"
  by (simp add: advance_def min_def)

lemma ends_reach:
  "q \<in> set (ends r p) \<Longrightarrow> \<exists>k. k \<le> length (snd p) \<and> q = advance p k"
proof -
  assume "q \<in> set (ends r p)"
  then obtain k where "q = advance p k" using ends_advance by blast
  then have "q = advance p (min k (length (snd p)))" using advance_clamp by simp
  then show ?thesis by (metis min.cobounded2)
qed

lemma startswith_single: "startswith t [c] = (t \<noteq> [] \<and> hd t = c)"
  by (cases t) auto

lemma lit_after_star_empty:
  "(concat (map (ends (Lit w)) (map (advance q) ks)) = [])
     = (\<forall>k \<in> set ks. \<not> startswith (drop k (snd q)) w)"
  by (induction ks) (auto simp: advance_def)

lemma closing_first_nth:
  "closing_first s = (\<exists>k \<le> length (takeWhile (\<lambda>c. c \<noteq> CHR ''['') s).
                        k < length s \<and> s ! k = CHR '']'')"
proof
  let ?t = "takeWhile (\<lambda>c. c \<noteq> CHR ''['') s"
  assume "closing_first s"
  then obtain k where "k < length ?t" "?t ! k = CHR '']''"
    by (auto simp: closing_first_def in_set_conv_nth)
  moreover have "length ?t \<le> length s" by (rule length_takeWhile_le)
  ultimately show "\<exists>k \<le> length ?t. k < length s \<and> s ! k = CHR '']''"
    by (metis takeWhile_nth less_imp_le_nat less_le_trans)
next
  let ?t = "takeWhile (\<lambda>c. c \<noteq> CHR ''['') s"
  assume "\<exists>k \<le> length ?t. k < length s \<and> s ! k = CHR '']''"
  then obtain k where k: "k \<le> length ?t" "k < length s" "s ! k = CHR '']''" by blast
  have "k \<noteq> length ?t"
  proof
    assume e: "k = length ?t"
    with k(2) have "\<not> (s ! k \<noteq> CHR ''['')"
      using nth_length_takeWhile [of "\<lambda>c. c \<noteq> CHR ''[''" s] by simp
    with k(3) show False by simp
  qed
  with k(1) have "k < length ?t" by simp
  then have "?t ! k \<in> set ?t" by simp
  moreover from \<open>k < length ?t\<close> have "?t ! k = s ! k" by (rule takeWhile_nth)
  ultimately show "closing_first s" using k(3) by (simp add: closing_first_def)
qed

text \<open>The pattern inside the lookahead, \<^verbatim>\<open>[^\[]*\]\<close>.\<close>

definition bracket_ahead :: regex where
  "bracket_ahead = Seq (Rep (NotSet [Ch (CHR ''['')]) 0 None) (Lit '']'')"

lemma in_cls_not_open: "in_cls (NotSet [Ch (CHR ''['')]) = (\<lambda>c. c \<noteq> CHR ''['')"
  by (rule ext) simp

lemma ends_bracket_ahead:
  "(ends bracket_ahead q = []) = (\<not> closing_first (snd q))"
proof -
  let ?n = "length (takeWhile (\<lambda>c. c \<noteq> CHR ''['') (snd q))"
  have "ends bracket_ahead q
        = concat (map (ends (Lit '']'')) (map (advance q) (rev [0..<Suc ?n])))"
    unfolding bracket_ahead_def
    by (simp only: ends.simps Let_def option.case in_cls_not_open)
  then have "(ends bracket_ahead q = [])
        = (\<forall>k \<in> set (rev [0..<Suc ?n]). \<not> startswith (drop k (snd q)) '']'')"
    by (simp only: lit_after_star_empty)
  also have "\<dots> = (\<forall>k \<le> ?n. \<not> startswith (drop k (snd q)) '']'')"
    by (auto simp: less_Suc_eq_le simp del: startswith.simps)
  also have "\<dots> = (\<not> closing_first (snd q))"
    by (auto simp: closing_first_nth startswith_single hd_drop_conv_nth
             simp del: startswith.simps)
  finally show ?thesis .
qed

lemma ends_not_ahead:
  "ends (NotAhead bracket_ahead) q = (if closing_first (snd q) then [] else [q])"
  by (simp add: ends_bracket_ahead)


lemma pattern_unfold:
  "suspect_number_pattern
     = Seq (NotBehind ''['')
         (Seq (Seq (Rep (Set [Digit]) 1 (Some 4))
                (Seq (Rep (Set [Ch (CHR '',''), Digit]) 0 None)
                  (Seq (Rep (Set [Space]) 0 (Some 1)) units)))
              (NotAhead bracket_ahead))"
  by (simp add: suspect_number_pattern_def bracket_ahead_def)

section \<open>What \<open>finditer\<close> reports\<close>

lemma scan_None:
  "match_at r p must = None \<Longrightarrow>
     scan r p must = (case snd p of [] \<Rightarrow> [] | c # cs \<Rightarrow> scan r (advance p 1) False)"
  by (subst scan.simps) simp

lemma scan_Some:
  "match_at r p must = Some q \<Longrightarrow>
     scan r p must = mk_match p q # scan r q (snd q = snd p)"
  by (subst scan.simps) simp

lemma scan_sound:
  "m \<in> set (scan r p must) \<Longrightarrow>
     \<exists>k q. k \<le> length (snd p) \<and> q \<in> set (ends r (advance p k))
           \<and> m = mk_match (advance p k) q"
proof (induction r p must rule: scan.induct)
  case (1 r p must)
  note IH = "1.IH" and prem = "1.prems"
  show ?case
  proof (cases "match_at r p must")
    case None
    show ?thesis
    proof (cases "snd p")
      case Nil
      from prem have False
        unfolding scan_None [OF None] Nil by simp
      then show ?thesis ..
    next
      case (Cons c cs)
      from prem have "m \<in> set (scan r (advance p 1) False)"
        unfolding scan_None [OF None] Cons by simp
      from IH(1) [OF None Cons this] obtain k q where
        k: "k \<le> length (snd (advance p 1))"
        and q: "q \<in> set (ends r (advance (advance p 1) k))"
        and m: "m = mk_match (advance (advance p 1) k) q"
        by blast
      from k Cons have "1 + k \<le> length (snd p)" by (simp add: length_snd_advance)
      moreover from q have "q \<in> set (ends r (advance p (1 + k)))"
        by (simp only: advance_twice)
      moreover from m have "m = mk_match (advance p (1 + k)) q"
        by (simp only: advance_twice)
      ultimately show ?thesis by (intro exI [of _ "1 + k"] exI [of _ q] conjI)
    qed
  next
    case (Some q)
    from Some have qe: "q \<in> set (ends r p)" using match_at_Some by blast
    from prem have "m = mk_match p q \<or> m \<in> set (scan r q (snd q = snd p))"
      unfolding scan_Some [OF Some] by simp
    then show ?thesis
    proof
      assume "m = mk_match p q"
      with qe have "0 \<le> length (snd p) \<and> q \<in> set (ends r (advance p 0))
                    \<and> m = mk_match (advance p 0) q"
        by (simp add: advance_zero)
      then show ?thesis by (intro exI [of _ 0] exI [of _ q])
    next
      assume rec: "m \<in> set (scan r q (snd q = snd p))"
      from qe obtain j where j: "j \<le> length (snd p)" "q = advance p j"
        using ends_reach by blast
      from IH(2) [OF Some rec] obtain k q' where
        k: "k \<le> length (snd q)"
        and q': "q' \<in> set (ends r (advance q k))"
        and m: "m = mk_match (advance q k) q'"
        by blast
      from k j have "j + k \<le> length (snd p)" by (simp add: length_snd_advance)
      moreover from q' j(2) have "q' \<in> set (ends r (advance p (j + k)))"
        by (simp only: advance_twice)
      moreover from m j(2) have "m = mk_match (advance p (j + k)) q'"
        by (simp only: advance_twice)
      ultimately show ?thesis by (intro exI [of _ "j + k"] exI [of _ q'] conjI)
    qed
  qed
qed


lemma mk_match_advance:
  "k + j \<le> length text \<Longrightarrow>
   mk_match (advance ([], text) k) (advance (advance ([], text) k) j)
     = \<lparr>m_start = k, m_end = k + j, m_group = take j (drop k text)\<rparr>"
  by (auto simp: mk_match_def advance_def min_def)

lemma scan_shape:
  assumes "m \<in> set (scan r ([], text) must)"
  shows "\<exists>k j. k + j \<le> length text
           \<and> m = \<lparr>m_start = k, m_end = k + j, m_group = take j (drop k text)\<rparr>
           \<and> advance ([], text) (k + j) \<in> set (ends r (advance ([], text) k))"
proof -
  from scan_sound [OF assms] obtain k q where
    k: "k \<le> length text"
    and q: "q \<in> set (ends r (advance ([], text) k))"
    and m: "m = mk_match (advance ([], text) k) q"
    by auto
  from ends_reach [OF q] obtain j where
    j: "j \<le> length (snd (advance ([], text) k))" and qj: "q = advance (advance ([], text) k) j"
    by blast
  from j k have le: "k + j \<le> length text" by (simp add: length_snd_advance)
  from m qj have "m = \<lparr>m_start = k, m_end = k + j, m_group = take j (drop k text)\<rparr>"
    by (simp only: mk_match_advance [OF le])
  moreover from q qj have "advance ([], text) (k + j) \<in> set (ends r (advance ([], text) k))"
    by (simp only: advance_twice)
  ultimately show ?thesis using le by blast
qed

lemma ends_guarded:
  "q \<in> set (ends (Seq (NotBehind w) (Seq g (NotAhead bracket_ahead))) p) \<Longrightarrow>
     \<not> startswith (fst p) (rev w) \<and> q \<in> set (ends g p) \<and> \<not> closing_first (snd q)"
  by (auto simp: ends_bracket_ahead split: if_splits)

lemma hd_rev_take:
  assumes "0 < k" and "k \<le> length text"
  shows "hd (rev (take k text)) = text ! (k - 1)"
proof -
  from assms have "take k text \<noteq> []" by auto
  then have "last (take k text) = take k text ! (length (take k text) - 1)"
    by (rule last_conv_nth)
  also from assms have "\<dots> = text ! (k - 1)" by (simp add: min_def)
  finally show ?thesis by (simp add: hd_rev)
qed

lemma suspect_match_guarded:
  assumes "m \<in> set (find_suspect_numbers text)"
  shows "m_start m \<le> m_end m \<and> m_end m \<le> length text
     \<and> m_group m = take (m_end m - m_start m) (drop (m_start m) text)
     \<and> (m_start m = 0 \<or> text ! (m_start m - 1) \<noteq> CHR ''['')
     \<and> \<not> closing_first (drop (m_end m) text)"
proof -
  from assms have "m \<in> set (scan suspect_number_pattern ([], text) False)"
    by (simp add: find_suspect_numbers_def)
  from scan_shape [OF this] obtain k j where
    le: "k + j \<le> length text"
    and m: "m = \<lparr>m_start = k, m_end = k + j, m_group = take j (drop k text)\<rparr>"
    and e: "advance ([], text) (k + j) \<in> set (ends suspect_number_pattern (advance ([], text) k))"
    by blast
  from e have g: "\<not> startswith (fst (advance ([], text) k)) (rev ''['')"
    and c: "\<not> closing_first (snd (advance ([], text) (k + j)))"
    unfolding pattern_unfold using ends_guarded by blast+
  from c have "\<not> closing_first (drop (k + j) text)" by (simp add: advance_def)
  moreover have "k = 0 \<or> text ! (k - 1) \<noteq> CHR ''[''"
  proof (cases "k = 0")
    case False
    with le have "hd (rev (take k text)) = text ! (k - 1)" by (simp add: hd_rev_take)
    moreover from False le have "rev (take k text) \<noteq> []" by auto
    ultimately show ?thesis using g
      by (simp add: advance_def startswith_single del: startswith.simps)
  qed simp
  ultimately show ?thesis using m le by simp
qed

lemma bracketed_example: "find_suspect_numbers ''[1500 bytes]'' = []"
  by code_simp

text \<open>
  Claim C2. The bracketed phrase \<open>[1500 bytes]\<close> yields no match, and the first rule never
  reports a match whose first character comes right after an opening bracket, or after
  whose end a closing bracket comes before any opening bracket. Every match is the part
  of the text between its start and its end.
\<close>

theorem bracket_exemption:
  "find_suspect_numbers ''[1500 bytes]'' = []
   \<and> (m \<in> set (find_suspect_numbers text) \<longrightarrow>
         m_end m \<le> length text
         \<and> m_group m = take (m_end m - m_start m) (drop (m_start m) text)
         \<and> (m_start m = 0 \<or> text ! (m_start m - 1) \<noteq> CHR ''['')
         \<and> \<not> closing_first (drop (m_end m) text))"
  using bracketed_example suspect_match_guarded [of m "text"] by blast

lemma suspect_example_bytes:
  "find_suspect_numbers ''Processed 1500 bytes total''
     = [\<lparr>m_start = 10, m_end = 20, m_group = ''1500 bytes''\<rparr>]"
  by code_simp

theorem bracket_exemption_witness:
  "m_end \<lparr>m_start = 10, m_end = 20, m_group = ''1500 bytes''\<rparr> \<le> length ''Processed 1500 bytes total''
   \<and> ''1500 bytes'' = take (20 - 10) (drop 10 ''Processed 1500 bytes total'')
   \<and> ''Processed 1500 bytes total'' ! (10 - 1) \<noteq> CHR ''[''
   \<and> \<not> closing_first (drop 20 ''Processed 1500 bytes total'')"
proof -
  have "\<lparr>m_start = 10, m_end = 20, m_group = ''1500 bytes''\<rparr>
          \<in> set (find_suspect_numbers ''Processed 1500 bytes total'')"
    by (simp add: suspect_example_bytes)
  with bracket_exemption
    [of "\<lparr>m_start = 10, m_end = 20, m_group = ''1500 bytes''\<rparr>" "''Processed 1500 bytes total''"]
  show ?thesis by simp
qed

section \<open>The alternative \<open>rows\<close>\<close>

text \<open>
  The first pattern with the alternative \<open>rows\<close> deleted, to compare the rule with.
\<close>

definition units_without_rows :: regex where
  "units_without_rows =
     alts [Seq (Lit ''byte'') (Rep (Set [Ch (CHR ''s'')]) 0 (Some 1)),
           Lit ''B'', Lit ''KB'', Lit ''MB'', Lit ''GB'', Lit ''ms'', Lit ''s'',
           seqs [Lit ''line'', Rep (Set [Space]) 0 (Some 1), Rep (Set [Digit]) 1 None],
           Lit ''row'', Lit ''duplicate'']"

definition suspect_number_pattern_without_rows :: regex where
  "suspect_number_pattern_without_rows =
     seqs [NotBehind ''['',
           seqs [Rep (Set [Digit]) 1 (Some 4),
                 Rep (Set [Ch (CHR '',''), Digit]) 0 None,
                 Rep (Set [Space]) 0 (Some 1),
                 units_without_rows],
           NotAhead (Seq (Rep (NotSet [Ch (CHR ''['')]) 0 None) (Lit '']''))]"

lemma concat_map_concat:
  "concat (map f (concat (map g xs))) = concat (map (\<lambda>x. concat (map f (g x))) xs)"
  by (induction xs) auto

lemma ends_Seq_fun: "ends (Seq b c) = (\<lambda>q. concat (map (ends c) (ends b q)))"
  by (rule ext) simp

lemma ends_Seq_assoc: "ends (Seq (Seq a b) c) = ends (Seq a (Seq b c))"
  by (rule ext) (simp add: concat_map_concat ends_Seq_fun)

lemma ends_Seq_Alt: "ends (Seq (Alt a b) c) p = ends (Seq a c) p @ ends (Seq b c) p"
  by simp

lemma take1_append: "take 1 (xs @ ys) = (if xs = [] then take 1 ys else take 1 xs)"
  by (cases xs) auto

lemma take1_empty: "(take 1 xs = []) = (xs = [])"
  by (cases xs) auto

lemma take1_concat:
  "(\<And>x. x \<in> set xs \<Longrightarrow> take 1 (f x) = take 1 (g x)) \<Longrightarrow>
     take 1 (concat (map f xs)) = take 1 (concat (map g xs))"
proof (induction xs)
  case Nil
  show ?case by simp
next
  case (Cons x xs)
  have h: "take 1 (f x) = take 1 (g x)" using Cons.prems by simp
  then have e: "(f x = []) = (g x = [])" by (metis take1_empty)
  have t: "take 1 (concat (map f xs)) = take 1 (concat (map g xs))"
    using Cons.IH Cons.prems by simp
  show ?case
    by (simp only: list.map concat.simps take1_append h e t)
qed

lemma take1_Seq:
  "(\<And>q. take 1 (ends b q) = take 1 (ends b' q)) \<Longrightarrow>
     take 1 (ends (Seq a b) p) = take 1 (ends (Seq a b') p)"
  using take1_concat [of "ends a p" "ends b" "ends b'"] by simp

lemma take1_Alt:
  "take 1 (ends (Seq b c) p) = take 1 (ends (Seq b' c) p) \<Longrightarrow>
     take 1 (ends (Seq (Alt a b) c) p) = take 1 (ends (Seq (Alt a b') c) p)"
  unfolding ends_Seq_Alt take1_append by simp

lemma closing_first_letter:
  "c \<noteq> CHR ''['' \<Longrightarrow> c \<noteq> CHR '']'' \<Longrightarrow> closing_first (c # t) = closing_first t"
  by (simp add: closing_first_def)

lemma rows_shadowed:
  "take 1 (ends (Seq (Alt (Lit ''row'') (Alt (Lit ''rows'') d)) (NotAhead bracket_ahead)) p)
   = take 1 (ends (Seq (Alt (Lit ''row'') d) (NotAhead bracket_ahead)) p)"
proof (cases "startswith (snd p) ''rows''")
  case False
  then show ?thesis by simp
next
  case True
  then obtain v where v: "snd p = ''rows'' @ v"
    unfolding startswith_append by blast
  have "ends (Seq (Lit ''row'') (NotAhead bracket_ahead)) p = []
        \<Longrightarrow> ends (Seq (Lit ''rows'') (NotAhead bracket_ahead)) p = []"
    using v
    by (simp add: ends_bracket_ahead advance_def closing_first_letter split: if_splits)
  then have imp: "ends (Seq (Lit ''row'') (NotAhead bracket_ahead)) p = []
        \<Longrightarrow> ends (Seq (Lit ''rows'') (NotAhead bracket_ahead)) p = []" .
  show ?thesis
  proof (cases "ends (Seq (Lit ''row'') (NotAhead bracket_ahead)) p = []")
    case True
    from imp [OF True] show ?thesis
      by (simp only: ends_Seq_Alt True append_Nil)
  next
    case False
    then show ?thesis
      by (simp only: ends_Seq_Alt take1_append if_False)
  qed
qed

lemma units_take1:
  "take 1 (ends (Seq units (NotAhead bracket_ahead)) p)
   = take 1 (ends (Seq units_without_rows (NotAhead bracket_ahead)) p)"
  unfolding units_def units_without_rows_def alts.simps
  by (intro take1_Alt rows_shadowed)

lemma pattern_without_rows_unfold:
  "suspect_number_pattern_without_rows
     = Seq (NotBehind ''['')
         (Seq (Seq (Rep (Set [Digit]) 1 (Some 4))
                (Seq (Rep (Set [Ch (CHR '',''), Digit]) 0 None)
                  (Seq (Rep (Set [Space]) 0 (Some 1)) units_without_rows)))
              (NotAhead bracket_ahead))"
  by (simp add: suspect_number_pattern_without_rows_def bracket_ahead_def)

lemma ends_NotBehind_Seq:
  "ends (Seq (NotBehind w) x) p = (if startswith (fst p) (rev w) then [] else ends x p)"
  by simp

lemma take1_NotBehind:
  "take 1 (ends x p) = take 1 (ends x' p) \<Longrightarrow>
     take 1 (ends (Seq (NotBehind w) x) p) = take 1 (ends (Seq (NotBehind w) x') p)"
  by simp

lemma seq4_assoc:
  "ends (Seq (Seq a (Seq b (Seq c u))) n) = ends (Seq a (Seq b (Seq c (Seq u n))))"
  by (rule ext) (simp add: ends_Seq_fun concat_map_concat)

lemma pattern_take1:
  "take 1 (ends suspect_number_pattern p) = take 1 (ends suspect_number_pattern_without_rows p)"
  unfolding pattern_unfold pattern_without_rows_unfold
  apply (rule take1_NotBehind)
  unfolding seq4_assoc
  apply (intro take1_Seq units_take1)
  done

lemma ends_Rep_progress:
  assumes "q \<in> set (ends (Rep c (Suc lo) hi) p)"
  shows "length (snd q) < length (snd p)"
proof -
  let ?n = "length (takeWhile (in_cls c) (snd p))"
  define m where "m = (case hi of None \<Rightarrow> ?n | Some h \<Rightarrow> min h ?n)"
  have "m \<le> ?n" by (simp add: m_def split: option.splits)
  moreover have "?n \<le> length (snd p)" by (rule length_takeWhile_le)
  moreover from assms have "q \<in> set (map (advance p) (rev [Suc lo..<Suc m]))"
    by (simp add: Let_def m_def)
  then obtain k where "Suc lo \<le> k" "k \<le> m" "q = advance p k" by auto
  ultimately show ?thesis by (simp add: length_snd_advance)
qed

lemma ends_guarded_progress:
  "q \<in> set (ends (Seq (NotBehind w) (Seq (Seq (Rep c (Suc lo) hi) x) y)) p) \<Longrightarrow>
     snd q \<noteq> snd p"
proof -
  assume "q \<in> set (ends (Seq (NotBehind w) (Seq (Seq (Rep c (Suc lo) hi) x) y)) p)"
  then have "q \<in> set (ends (Seq (Rep c (Suc lo) hi) (Seq x y)) p)"
    unfolding ends_NotBehind_Seq ends_Seq_assoc by (simp split: if_splits)
  then obtain p1 where p1: "p1 \<in> set (ends (Rep c (Suc lo) hi) p)"
    and q: "q \<in> set (ends (Seq x y) p1)"
    by (auto simp del: ends.simps(2))
  from p1 have "length (snd p1) < length (snd p)" by (rule ends_Rep_progress)
  moreover from q have "length (snd q) \<le> length (snd p1)" by (rule ends_length)
  ultimately show ?thesis by auto
qed

lemma match_at_take1:
  assumes "\<And>q. q \<in> set (ends r p) \<Longrightarrow> snd q \<noteq> snd p"
  shows "match_at r p must = (case take 1 (ends r p) of [] \<Rightarrow> None | q # qs \<Rightarrow> Some q)"
proof -
  have "filter (\<lambda>q. if must then snd q \<noteq> snd p else True) (ends r p) = ends r p"
    using assms by (simp add: filter_id_conv)
  then show ?thesis
    by (cases "ends r p") (simp_all add: match_at_def)
qed

lemma match_at_without_rows:
  "match_at suspect_number_pattern p must = match_at suspect_number_pattern_without_rows p must"
proof -
  have a: "\<And>q. q \<in> set (ends suspect_number_pattern p) \<Longrightarrow> snd q \<noteq> snd p"
    unfolding pattern_unfold One_nat_def by (rule ends_guarded_progress)
  have b: "\<And>q. q \<in> set (ends suspect_number_pattern_without_rows p) \<Longrightarrow> snd q \<noteq> snd p"
    unfolding pattern_without_rows_unfold One_nat_def by (rule ends_guarded_progress)
  show ?thesis
    by (simp only: match_at_take1 [of suspect_number_pattern, OF a]
          match_at_take1 [of suspect_number_pattern_without_rows, OF b] pattern_take1)
qed

lemma scan_cong:
  assumes eq: "\<And>p must. match_at r p must = match_at r' p must"
  shows "scan r p must = scan r' p must"
  using eq
proof (induction r p must rule: scan.induct)
  case (1 r p must)
  note IH = "1.IH" and eq = "1.prems"
  show ?case
  proof (cases "match_at r p must")
    case None
    then have n': "match_at r' p must = None" using eq by simp
    show ?thesis
    proof (cases "snd p")
      case Nil
      then show ?thesis by (simp only: scan_None [OF None] scan_None [OF n'] list.case)
    next
      case (Cons c cs)
      from IH(1) [OF None Cons eq] show ?thesis
        by (simp only: scan_None [OF None] scan_None [OF n'] Cons list.case)
    qed
  next
    case (Some q)
    then have s': "match_at r' p must = Some q" using eq by simp
    from IH(2) [OF Some eq] show ?thesis
      by (simp only: scan_Some [OF Some] scan_Some [OF s'])
  qed
qed

lemma rows_example: "find_suspect_numbers ''5 rows'' = [\<lparr>m_start = 0, m_end = 5, m_group = ''5 row''\<rparr>]"
  by code_simp

lemma rows_example_label: "type_label \<lparr>m_start = 0, m_end = 5, m_group = ''5 row''\<rparr> = ''Line/Reference''"
  by code_simp

text \<open>
  Claim C10. The alternative \<open>rows\<close> of the first rule is unreachable: \<open>row\<close> stands before
  it and the lookahead decides alike after both, so the rule finds on every text what
  the pattern without \<open>rows\<close> finds. On \<open>5 rows\<close> it reports the one match \<open>5 row\<close>,
  labelled \<open>Line/Reference\<close>.
\<close>

theorem rows_alternative_unreachable:
  "find_suspect_numbers text = scan suspect_number_pattern_without_rows ([], text) False
   \<and> find_suspect_numbers ''5 rows'' = [\<lparr>m_start = 0, m_end = 5, m_group = ''5 row''\<rparr>]
   \<and> map type_label (find_suspect_numbers ''5 rows'') = [''Line/Reference'']"
  using scan_cong [of suspect_number_pattern suspect_number_pattern_without_rows "([], text)" False]
    match_at_without_rows rows_example rows_example_label
  by (simp add: find_suspect_numbers_def)

section \<open>Failures and exit codes\<close>

lemma scan_spans:
  assumes "m \<in> set (scan r ([], text) must)"
  shows "m_start m \<le> m_end m \<and> m_end m \<le> length text
     \<and> m_group m = take (m_end m - m_start m) (drop (m_start m) text)"
proof -
  from scan_shape [OF assms] obtain k j where
    "k + j \<le> length text"
    and "m = \<lparr>m_start = k, m_end = k + j, m_group = take j (drop k text)\<rparr>"
    by blast
  then show ?thesis by simp
qed

lemma searches_span:
  "list_all (\<lambda>m. m_start m \<le> m_end m \<and> m_end m \<le> length text
               \<and> m_group m = take (m_end m - m_start m) (drop (m_start m) text))
     (find_suspect_numbers text @ find_fake_paths text)"
  unfolding list_all_iff find_suspect_numbers_def find_fake_paths_def
  using scan_spans by auto

text \<open>
  Claim C8. When \<open>load_file\<close> fails on the one path argument, the exception leaves
  \<open>main\<close> and the script unhandled: nothing is printed, no scan runs, and the process
  ends with the traceback and status 1. The two searches are total functions of the
  loaded text, with no failing branch: on every text each returns a list of matches,
  and every match is a span of the text.
\<close>

theorem load_failure_propagates:
  "(length argv = 2 \<and> load_file fs (argv ! 1) = Inl e
      \<longrightarrow> main console fs (argv ! 1) = Inl (LoadError e)
          \<and> script console fs argv = ([], Traceback (LoadError e))
          \<and> exit_code (snd (script console fs argv)) = 1)
   \<and> list_all (\<lambda>m. m_start m \<le> m_end m \<and> m_end m \<le> length text
                  \<and> m_group m = take (m_end m - m_start m) (drop (m_start m) text))
        (find_suspect_numbers text @ find_fake_paths text)"
  using main_not_loaded [of fs "argv ! 1" e console] searches_span [of "text"]
  by (auto simp: script_def)

lemma sample3_suspect_numbers:
  "find_suspect_numbers ''took 10 seconds in src/main.rs:42''
     = [\<lparr>m_start = 5, m_end = 9, m_group = ''10 s''\<rparr>]"
  by code_simp

lemma sample3_fake_paths:
  "find_fake_paths ''took 10 seconds in src/main.rs:42''
     = [\<lparr>m_start = 19, m_end = 33, m_group = ''src/main.rs:42''\<rparr>]"
  by code_simp

theorem load_failure_propagates_witness:
  "main accepting_console no_files ''missing.md'' = Inl (LoadError FileNotFoundError)
   \<and> script accepting_console no_files [''audit.py'', ''missing.md'']
       = ([], Traceback (LoadError FileNotFoundError))
   \<and> exit_code (snd (script accepting_console no_files [''audit.py'', ''missing.md''])) = 1
   \<and> list_all (\<lambda>m. m_start m \<le> m_end m \<and> m_end m \<le> length ''took 10 seconds in src/main.rs:42''
                  \<and> m_group m = take (m_end m - m_start m)
                                   (drop (m_start m) ''took 10 seconds in src/main.rs:42''))
        [\<lparr>m_start = 5, m_end = 9, m_group = ''10 s''\<rparr>,
         \<lparr>m_start = 19, m_end = 33, m_group = ''src/main.rs:42''\<rparr>]"
proof -
  have a: "length [''audit.py'', ''missing.md''] = 2
           \<and> load_file no_files ([''audit.py'', ''missing.md''] ! 1) = Inl FileNotFoundError"
    by (simp add: load_file_def no_files_def)
  note t = load_failure_propagates
    [of "[''audit.py'', ''missing.md'']" no_files FileNotFoundError accepting_console
        "''took 10 seconds in src/main.rs:42''"]
  from t a have "main accepting_console no_files ''missing.md'' = Inl (LoadError FileNotFoundError)
   \<and> script accepting_console no_files [''audit.py'', ''missing.md'']
       = ([], Traceback (LoadError FileNotFoundError))
   \<and> exit_code (snd (script accepting_console no_files [''audit.py'', ''missing.md''])) = 1"
    by simp
  moreover from t have "list_all (\<lambda>m. m_start m \<le> m_end m \<and> m_end m \<le> length ''took 10 seconds in src/main.rs:42''
                  \<and> m_group m = take (m_end m - m_start m)
                                   (drop (m_start m) ''took 10 seconds in src/main.rs:42''))
        [\<lparr>m_start = 5, m_end = 9, m_group = ''10 s''\<rparr>,
         \<lparr>m_start = 19, m_end = 33, m_group = ''src/main.rs:42''\<rparr>]"
    unfolding sample3_suspect_numbers sample3_fake_paths by simp
  ultimately show ?thesis by blast
qed

text \<open>
  Claim C7 says that the process exits nonzero only for a wrong argument count. With
  exactly one argument that names a missing file, the exception of \<open>load_file\<close> is not
  caught and the process ends with status 1.
\<close>

theorem exit_codes_counterexample:
  "length [''audit.py'', ''missing.md''] = 2
   \<and> exit_code (snd (script accepting_console no_files [''audit.py'', ''missing.md''])) = 1"
  by (simp add: script_def main_def load_file_def no_files_def)

lemma main_completes:
  assumes "load_file fs path = Inr text"
    and "find_suspect_numbers text @ find_fake_paths text = []
         \<or> console (alerts_table text (find_suspect_numbers text @ find_fake_paths text))"
  shows "\<exists>out. main console fs path = Inr out"
proof (cases "find_suspect_numbers text @ find_fake_paths text = []")
  case True
  from main_clean [OF assms(1) True] show ?thesis by blast
next
  case False
  with assms(2) have c: "console (alerts_table text (find_suspect_numbers text @ find_fake_paths text))"
    by blast
  show ?thesis
    unfolding main_findings [OF assms(1) False, of console] using c by simp
qed

text \<open>
  Claim C7, amended. With an argument count other than one (\<open>len(sys.argv) != 2\<close>) the
  script prints the usage message and exits with status 1, and this is the only exit
  through \<open>sys.exit\<close>. With exactly one argument the usage message is never printed; a
  scan that completes (\<open>main\<close> returns), clean or with findings, ends with status 0; and
  the status is nonzero only when an exception leaves \<open>main\<close> uncaught, as for a file
  that cannot be loaded: then nothing was printed and the status is 1.
\<close>

theorem script_exit_codes:
  "(length argv \<noteq> 2 \<longrightarrow> script console fs argv = ([Styled usage_message ''bold''], Exit 1))
   \<and> (length argv = 2 \<longrightarrow> Styled usage_message sty \<notin> set (fst (script console fs argv)))
   \<and> (length argv = 2 \<and> main console fs (argv ! 1) = Inr out
        \<longrightarrow> script console fs argv = (out, Exit 0))
   \<and> (length argv = 2 \<and> load_file fs (argv ! 1) = Inr text
        \<and> (find_suspect_numbers text @ find_fake_paths text = []
            \<or> console (alerts_table text (find_suspect_numbers text @ find_fake_paths text)))
        \<longrightarrow> snd (script console fs argv) = Exit 0)
   \<and> (length argv = 2 \<and> main console fs (argv ! 1) = Inl err
        \<longrightarrow> script console fs argv = ([], Traceback err)
            \<and> exit_code (snd (script console fs argv)) = 1)
   \<and> (length argv = 2 \<and> load_file fs (argv ! 1) = Inl e
        \<longrightarrow> main console fs (argv ! 1) = Inl (LoadError e))
   \<and> (snd (script console fs argv) = Exit n \<and> n \<noteq> 0
        \<longrightarrow> length argv \<noteq> 2 \<and> n = 1
            \<and> fst (script console fs argv) = [Styled usage_message ''bold''])"
proof (intro conjI impI)
  assume "length argv \<noteq> 2"
  then show "script console fs argv = ([Styled usage_message ''bold''], Exit 1)"
    by (simp add: script_def)
next
  assume "length argv = 2"
  then show "Styled usage_message sty \<notin> set (fst (script console fs argv))"
    using main_never_prints_usage [of console fs "argv ! 1"]
    by (auto simp: script_def split: sum.splits)
next
  assume "length argv = 2 \<and> main console fs (argv ! 1) = Inr out"
  then show "script console fs argv = (out, Exit 0)"
    by (simp add: script_def)
next
  assume a: "length argv = 2 \<and> load_file fs (argv ! 1) = Inr text
        \<and> (find_suspect_numbers text @ find_fake_paths text = []
            \<or> console (alerts_table text (find_suspect_numbers text @ find_fake_paths text)))"
  then obtain out where "main console fs (argv ! 1) = Inr out"
    using main_completes [of fs "argv ! 1" "text" console] by blast
  with a show "snd (script console fs argv) = Exit 0"
    by (simp add: script_def)
next
  assume a: "length argv = 2 \<and> main console fs (argv ! 1) = Inl err"
  then show "script console fs argv = ([], Traceback err)"
    by (simp add: script_def)
  then show "exit_code (snd (script console fs argv)) = 1"
    by simp
next
  assume "length argv = 2 \<and> load_file fs (argv ! 1) = Inl e"
  then show "main console fs (argv ! 1) = Inl (LoadError e)"
    by (simp add: main_not_loaded)
next
  assume a: "snd (script console fs argv) = Exit n \<and> n \<noteq> 0"
  then show "length argv \<noteq> 2" by (auto simp: script_def split: sum.splits)
  from a show "n = 1" by (auto simp: script_def split: sum.splits if_splits)
  from a show "fst (script console fs argv) = [Styled usage_message ''bold'']"
    by (auto simp: script_def split: sum.splits if_splits)
qed


lemma sample3_clean:
  "find_suspect_numbers ''Nothing to flag here.'' @ find_fake_paths ''Nothing to flag here.'' = []"
  by code_simp

theorem script_exit_codes_witness:
  "script refusing_console no_files [''audit.py''] = ([Styled usage_message ''bold''], Exit 1)
   \<and> Styled usage_message ''bold''
        \<notin> set (fst (script accepting_console (file_with ''took 10 seconds in src/main.rs:42'')
                        [''audit.py'', ''notes.md'']))
   \<and> snd (script refusing_console (file_with ''Nothing to flag here.'') [''audit.py'', ''notes.md''])
       = Exit 0
   \<and> snd (script accepting_console (file_with ''took 10 seconds in src/main.rs:42'')
              [''audit.py'', ''notes.md'']) = Exit 0
   \<and> script accepting_console no_files [''audit.py'', ''missing.md'']
       = ([], Traceback (LoadError FileNotFoundError))
   \<and> exit_code (snd (script accepting_console no_files [''audit.py'', ''missing.md''])) = 1
   \<and> snd (script accepting_console no_files [''audit.py'', ''a.md'', ''b.md'']) = Exit 1"
proof -
  let ?T = "''took 10 seconds in src/main.rs:42''"
  let ?two = "[''audit.py'', ''notes.md'']"
  have 1: "script refusing_console no_files [''audit.py''] = ([Styled usage_message ''bold''], Exit 1)"
    using script_exit_codes [of "[''audit.py'']" refusing_console no_files] by simp
  have 2: "Styled usage_message ''bold'' \<notin> set (fst (script accepting_console (file_with ?T) ?two))"
    using script_exit_codes [of ?two accepting_console "file_with ?T" "''bold''"] by simp
  have l3: "load_file (file_with ''Nothing to flag here.'') (?two ! 1) = Inr ''Nothing to flag here.''"
    by (simp add: load_file_def file_with_def)
  have 3: "snd (script refusing_console (file_with ''Nothing to flag here.'') ?two) = Exit 0"
    using script_exit_codes
      [of ?two refusing_console "file_with ''Nothing to flag here.''" _ _ "''Nothing to flag here.''"]
      l3 sample3_clean
    by simp
  have l4: "load_file (file_with ?T) (?two ! 1) = Inr ?T"
    by (simp add: load_file_def file_with_def)
  have 4: "snd (script accepting_console (file_with ?T) ?two) = Exit 0"
    using script_exit_codes [of ?two accepting_console "file_with ?T" _ _ ?T] l4
    by (simp add: accepting_console_def)
  have l5: "load_file no_files ([''audit.py'', ''missing.md''] ! 1) = Inl FileNotFoundError"
    by (simp add: load_file_def no_files_def)
  note t5 = script_exit_codes
    [of "[''audit.py'', ''missing.md'']" accepting_console no_files _ _ _
        "LoadError FileNotFoundError" FileNotFoundError]
  from t5 l5 have m5: "main accepting_console no_files ([''audit.py'', ''missing.md''] ! 1)
      = Inl (LoadError FileNotFoundError)"
    by simp
  with t5 have 5: "script accepting_console no_files [''audit.py'', ''missing.md'']
       = ([], Traceback (LoadError FileNotFoundError))
     \<and> exit_code (snd (script accepting_console no_files [''audit.py'', ''missing.md''])) = 1"
    by simp
  have 6: "snd (script accepting_console no_files [''audit.py'', ''a.md'', ''b.md'']) = Exit 1"
    using script_exit_codes [of "[''audit.py'', ''a.md'', ''b.md'']" accepting_console no_files] by simp
  from 1 2 3 4 5 6 show ?thesis by simp
qed

end
